theory Spec2Isabelle
  imports Complex_Main "HOL-Library.AList" "HOL-Library.Char_ord" "HOL-Library.List_Lexorder"
begin

section \<open>Parsed JSON responses\<close>

text \<open>
  The value returned by \<^verbatim>\<open>resp.json()\<close>: Python's \<^verbatim>\<open>None\<close>, \<^verbatim>\<open>bool\<close>, \<^verbatim>\<open>int\<close>,
  \<^verbatim>\<open>float\<close>, \<^verbatim>\<open>str\<close>, \<^verbatim>\<open>list\<close> and \<^verbatim>\<open>dict\<close>. A dict is an association list
  read with \<open>map_of\<close>. A float is a finite double, given by the real number it denotes;
  the infinities and NaN are outside the model.
\<close>

datatype json =
    JNull
  | JBool bool
  | JInt int
  | JFloat real
  | JStr string
  | JList "json list"
  | JDict "(string \<times> json) list"

section \<open>Exceptions\<close>

datatype error =
    FileNotFoundError
  | FileExistsError
  | NotADirectoryError
  | IsADirectoryError
  | OverflowError
  | RequestError
  | RetryError

section \<open>Conversion of an integer to a float\<close>

text \<open>\<^verbatim>\<open>int.bit_length()\<close> of a magnitude.\<close>

fun bit_length :: "nat \<Rightarrow> nat" where
  "bit_length n = (if n = 0 then 0 else Suc (bit_length (n div 2)))"

declare bit_length.simps [simp del]

text \<open>
  The magnitude rounded to 53 significant bits, ties to the even significand, as
  CPython's \<^verbatim>\<open>float(int)\<close> rounds.
\<close>

definition round_to_double :: "nat \<Rightarrow> nat" where
  "round_to_double n =
     (let b = bit_length n in
      if b \<le> 53 then n
      else
        (let e = b - 53; q = n div 2 ^ e; r = n mod 2 ^ e; half = 2 ^ (e - 1) in
         (if half < r \<or> (r = half \<and> odd q) then q + 1 else q) * 2 ^ e))"

text \<open>
  \<^verbatim>\<open>float(i)\<close> of an \<^verbatim>\<open>int\<close>: the nearest double, and \<^verbatim>\<open>OverflowError\<close>
  (\<^verbatim>\<open>int too large to convert to float\<close>) when the rounded magnitude reaches \<open>2 ^ 1024\<close>.
\<close>

definition float_of_int :: "int \<Rightarrow> error + real" where
  "float_of_int i =
     (let m = round_to_double (nat \<bar>i\<bar>) in
      if 2 ^ 1024 \<le> m then Inl OverflowError
      else Inr (if i < 0 then - real m else real m))"

section \<open>The confidence extractor\<close>

text \<open>
  \<^verbatim>\<open>isinstance(v, (int, float))\<close> followed by \<^verbatim>\<open>float(v)\<close>: \<open>None\<close> when the test fails,
  otherwise what the conversion returns or raises. Python's \<^verbatim>\<open>bool\<close> is a subclass of
  \<^verbatim>\<open>int\<close>, so the test accepts booleans, and \<^verbatim>\<open>float(True)\<close> is \<^verbatim>\<open>1.0\<close>.
\<close>

fun as_float :: "json \<Rightarrow> (error + real) option" where
  "as_float (JBool b) = Some (Inr (if b then 1 else 0))"
| "as_float (JInt i) = Some (float_of_int i)"
| "as_float (JFloat x) = Some (Inr x)"
| "as_float _ = None"

text \<open>
  \<^verbatim>\<open>key in r and isinstance(r[key], list)\<close>, the test of the \<^verbatim>\<open>detections\<close> and
  \<^verbatim>\<open>predictions\<close> branches.
\<close>

definition list_at :: "(string \<times> json) list \<Rightarrow> string \<Rightarrow> json list option" where
  "list_at r key = (case map_of r key of Some (JList xs) \<Rightarrow> Some xs | _ \<Rightarrow> None)"

text \<open>
  \<^verbatim>\<open>key in r and isinstance(r[key], (int, float))\<close>, with \<^verbatim>\<open>float(r[key])\<close> when the
  test passes.
\<close>

definition float_at :: "(string \<times> json) list \<Rightarrow> string \<Rightarrow> (error + real) option" where
  "float_at r key = (case map_of r key of None \<Rightarrow> None | Some v \<Rightarrow> as_float v)"

text \<open>Python's two-argument \<^verbatim>\<open>max(a, b)\<close>: \<open>b\<close> only when it is strictly greater.\<close>

definition py_max :: "real \<Rightarrow> real \<Rightarrow> real" where
  "py_max a b = (if a < b then b else a)"

definition conf_keys :: "string list" where
  "conf_keys = [''confidence'', ''score'', ''probability'']"

text \<open>
  One pass of \<^verbatim>\<open>if key in d and isinstance(d[key], (int, float)): max_conf = max(max_conf, float(d[key]))\<close>.
\<close>

definition scan_key :: "(string \<times> json) list \<Rightarrow> string \<Rightarrow> real \<Rightarrow> error + real" where
  "scan_key d key max_conf =
     (case float_at d key of
        None \<Rightarrow> Inr max_conf
      | Some (Inl e) \<Rightarrow> Inl e
      | Some (Inr x) \<Rightarrow> Inr (py_max max_conf x))"

text \<open>The loop \<^verbatim>\<open>for key in ("confidence", "score", "probability")\<close>; an exception leaves it.\<close>

fun scan_keys :: "(string \<times> json) list \<Rightarrow> string list \<Rightarrow> real \<Rightarrow> error + real" where
  "scan_keys d [] max_conf = Inr max_conf"
| "scan_keys d (key # keys) max_conf =
     (case scan_key d key max_conf of
        Inl e \<Rightarrow> Inl e
      | Inr m \<Rightarrow> scan_keys d keys m)"

text \<open>The body of the loop over the elements: \<^verbatim>\<open>if isinstance(d, dict): for key in (...)\<close>.\<close>

fun scan_element :: "json \<Rightarrow> real \<Rightarrow> error + real" where
  "scan_element (JDict d) max_conf = scan_keys d conf_keys max_conf"
| "scan_element _ max_conf = Inr max_conf"

fun scan_elements :: "json list \<Rightarrow> real \<Rightarrow> error + real" where
  "scan_elements [] max_conf = Inr max_conf"
| "scan_elements (d # ds) max_conf =
     (case scan_element d max_conf of
        Inl e \<Rightarrow> Inl e
      | Inr m \<Rightarrow> scan_elements ds m)"

fun extract_max_confidence :: "json \<Rightarrow> error + real" where
  "extract_max_confidence (JDict r) =
     (case list_at r ''detections'' of
        Some ds \<Rightarrow> scan_elements ds 0
      | None \<Rightarrow>
        (case float_at r ''confidence'' of
           Some x \<Rightarrow> x
         | None \<Rightarrow>
           (case list_at r ''predictions'' of
              Some ps \<Rightarrow> scan_elements ps 0
            | None \<Rightarrow> Inr 0)))"
| "extract_max_confidence _ = Inr 0"

section \<open>Paths and the file classifier\<close>

text \<open>
  A \<^verbatim>\<open>pathlib.Path\<close> is the list of its components; the empty list is the current
  directory. Only \<^verbatim>\<open>name\<close>, \<^verbatim>\<open>suffix\<close>, \<^verbatim>\<open>stem\<close>, \<^verbatim>\<open>/\<close> and \<^verbatim>\<open>str\<close> are used
  by the program.
\<close>

type_synonym path = "string list"

definition name :: "path \<Rightarrow> string" where
  "name p = (if p = [] then [] else last p)"

text \<open>\<^verbatim>\<open>s.rfind(c)\<close>: the last index of \<open>c\<close>, \<open>None\<close> for Python's \<open>-1\<close>.\<close>

fun rfind :: "char \<Rightarrow> string \<Rightarrow> nat option" where
  "rfind c [] = None"
| "rfind c (x # xs) =
     (case rfind c xs of
        Some i \<Rightarrow> Some (Suc i)
      | None \<Rightarrow> (if x = c then Some 0 else None))"

text \<open>
  pathlib's \<^verbatim>\<open>suffix\<close> and \<^verbatim>\<open>stem\<close>:
  \<^verbatim>\<open>i = name.rfind('.'); if 0 < i < len(name) - 1: return name[i:] else: return ''\<close>
  (and \<^verbatim>\<open>name[:i]\<close>, else \<^verbatim>\<open>name\<close>, for the stem). The index exists only in a non-empty
  name, so \<^verbatim>\<open>i < len(name) - 1\<close> is \<open>Suc i < length n\<close>.
\<close>

definition suffix :: "path \<Rightarrow> string" where
  "suffix p =
     (let n = name p in
      case rfind (CHR ''.'') n of
        Some i \<Rightarrow> (if 0 < i \<and> Suc i < length n then drop i n else [])
      | None \<Rightarrow> [])"

definition stem :: "path \<Rightarrow> string" where
  "stem p =
     (let n = name p in
      case rfind (CHR ''.'') n of
        Some i \<Rightarrow> (if 0 < i \<and> Suc i < length n then take i n else n)
      | None \<Rightarrow> n)"

text \<open>\<^verbatim>\<open>str.lower()\<close> on the ASCII letters; every other character is kept.\<close>

definition lower_char :: "char \<Rightarrow> char" where
  "lower_char c =
     (case map_of (zip ''ABCDEFGHIJKLMNOPQRSTUVWXYZ'' ''abcdefghijklmnopqrstuvwxyz'') c of
        Some l \<Rightarrow> l
      | None \<Rightarrow> c)"

definition lower :: "string \<Rightarrow> string" where
  "lower s = map lower_char s"

definition is_image_file :: "path \<Rightarrow> bool" where
  "is_image_file p \<longleftrightarrow> lower (suffix p) \<in> set [''.jpg'', ''.jpeg'', ''.png'', ''.bmp'', ''.gif'']"

text \<open>\<^verbatim>\<open>str(path)\<close>: the components joined by \<^verbatim>\<open>/\<close>; the current directory is \<^verbatim>\<open>.\<close>\<close>

fun join_path :: "path \<Rightarrow> string" where
  "join_path [] = []"
| "join_path [c] = c"
| "join_path (c # cs) = c @ ''/'' @ join_path cs"

definition str :: "path \<Rightarrow> string" where
  "str p = (if p = [] then ''.'' else join_path p)"

section \<open>The world: file system, endpoint and trace\<close>

text \<open>
  The file system is an association list from paths to nodes, read with \<open>map_of\<close>; the
  current directory always exists. A file holds raw bytes or a JSON document written by
  \<^verbatim>\<open>json.dump\<close> (the serialisation is not modelled).
\<close>

datatype content = Bytes string | Json json

datatype node = File content | Dir

type_synonym filesystem = "(path \<times> node) list"

text \<open>
  What the program does to the outside, in order: its log lines, each call of the body of
  \<^verbatim>\<open>send_image\<close>, and each JSON document it writes.
\<close>

datatype event =
    Processing path
  | Attempt path
  | Failed_to_send path error
  | Wrote path json
  | Max_confidence string real
  | Saved_low_confidence path

record world =
  fs :: filesystem
  posts :: nat
  trace :: "event list"

text \<open>
  The remote endpoint: the outcome of the \<open>n\<close>-th HTTP request of the run, for a file name
  and its bytes. \<open>Inl\<close> stands for a failed request, a non-2xx status
  (\<^verbatim>\<open>raise_for_status\<close>) or a body that is not JSON (\<^verbatim>\<open>resp.json()\<close>).
\<close>

type_synonym endpoint = "nat \<Rightarrow> string \<Rightarrow> content \<Rightarrow> error + json"

definition emit :: "event \<Rightarrow> world \<Rightarrow> world" where
  "emit e w = w\<lparr>trace := trace w @ [e]\<rparr>"

definition lookup :: "filesystem \<Rightarrow> path \<Rightarrow> node option" where
  "lookup f p = (if p = [] then Some Dir else map_of f p)"

definition is_file :: "filesystem \<Rightarrow> path \<Rightarrow> bool" where
  "is_file f p = (case lookup f p of Some (File c) \<Rightarrow> True | _ \<Rightarrow> False)"

definition is_dir :: "filesystem \<Rightarrow> path \<Rightarrow> bool" where
  "is_dir f p = (lookup f p = Some Dir)"

definition exists :: "filesystem \<Rightarrow> path \<Rightarrow> bool" where
  "exists f p = (lookup f p \<noteq> None)"

text \<open>\<^verbatim>\<open>path.open("rb")\<close>.\<close>

definition open_rb :: "filesystem \<Rightarrow> path \<Rightarrow> error + content" where
  "open_rb f p =
     (case lookup f p of
        None \<Rightarrow> Inl FileNotFoundError
      | Some Dir \<Rightarrow> Inl IsADirectoryError
      | Some (File c) \<Rightarrow> Inr c)"

text \<open>
  \<^verbatim>\<open>path.open("w")\<close> followed by \<^verbatim>\<open>json.dump\<close>: the parent must be a directory and the
  path itself must not be one; an existing file is overwritten.
\<close>

definition write_json :: "filesystem \<Rightarrow> path \<Rightarrow> json \<Rightarrow> error + filesystem" where
  "write_json f p doc =
     (case lookup f (butlast p) of
        None \<Rightarrow> Inl FileNotFoundError
      | Some (File c) \<Rightarrow> Inl NotADirectoryError
      | Some Dir \<Rightarrow>
          (case lookup f p of
             Some Dir \<Rightarrow> Inl IsADirectoryError
           | _ \<Rightarrow> Inr (AList.update p (File (Json doc)) f)))"

text \<open>\<^verbatim>\<open>os.mkdir(path)\<close>, one level.\<close>

definition os_mkdir :: "filesystem \<Rightarrow> path \<Rightarrow> error + filesystem" where
  "os_mkdir f p =
     (if p = [] then Inl FileExistsError
      else case lookup f (butlast p) of
        None \<Rightarrow> Inl FileNotFoundError
      | Some (File c) \<Rightarrow> Inl NotADirectoryError
      | Some Dir \<Rightarrow>
          (case lookup f p of
             None \<Rightarrow> Inr (AList.update p Dir f)
           | Some n \<Rightarrow> Inl FileExistsError))"

text \<open>
  pathlib's \<^verbatim>\<open>Path.mkdir(parents=True, exist_ok=True)\<close>:
  \<^verbatim>\<open>
  try: os.mkdir(self)
  except FileNotFoundError:
      if self.parent == self: raise
      self.parent.mkdir(parents=True, exist_ok=True)
      self.mkdir(parents=False, exist_ok=True)
  except OSError:
      if not self.is_dir(): raise
  \<close>
\<close>

function mkdir_parents :: "filesystem \<Rightarrow> path \<Rightarrow> error + filesystem" where
  "mkdir_parents f p =
     (case os_mkdir f p of
        Inr f' \<Rightarrow> Inr f'
      | Inl e \<Rightarrow>
          (if e = FileNotFoundError then
             (if p = [] then Inl e
              else case mkdir_parents f (butlast p) of
                Inl e' \<Rightarrow> Inl e'
              | Inr f' \<Rightarrow>
                  (case os_mkdir f' p of
                     Inr f'' \<Rightarrow> Inr f''
                   | Inl e' \<Rightarrow> (if e' \<noteq> FileNotFoundError \<and> is_dir f' p then Inr f' else Inl e')))
           else if is_dir f p then Inr f else Inl e))"
  by pat_completeness auto
termination
  by (relation "measure (\<lambda>(f, p). length p)") auto

declare mkdir_parents.simps [simp del]

text \<open>The directory's entries, as \<^verbatim>\<open>iterdir\<close> yields them (in the order of the model).\<close>

definition iterdir :: "filesystem \<Rightarrow> path \<Rightarrow> error + path list" where
  "iterdir f d =
     (case lookup f d of
        None \<Rightarrow> Inl FileNotFoundError
      | Some (File c) \<Rightarrow> Inl NotADirectoryError
      | Some Dir \<Rightarrow> Inr (remdups (filter (\<lambda>p. p \<noteq> [] \<and> butlast p = d) (map fst f))))"

section \<open>The upload client\<close>

text \<open>
  The body of \<^verbatim>\<open>send_image\<close>, one attempt: open the image, post it, return the parsed
  body. The timeout and the waiting between attempts are not modelled.
\<close>

definition send_once :: "endpoint \<Rightarrow> path \<Rightarrow> world \<Rightarrow> (error + json) \<times> world" where
  "send_once api image_path w =
     (let w1 = emit (Attempt image_path) w in
      case open_rb (fs w1) image_path of
        Inl e \<Rightarrow> (Inl e, w1)
      | Inr bytes \<Rightarrow> (api (posts w1) (name image_path) bytes, w1\<lparr>posts := Suc (posts w1)\<rparr>))"

text \<open>
  tenacity's \<^verbatim>\<open>retry(stop=stop_after_attempt(n))\<close>: the body is called again after each
  exception, and after the \<open>n\<close>-th failed call \<^verbatim>\<open>RetryError\<close> is raised.
\<close>

fun retry :: "nat \<Rightarrow> (world \<Rightarrow> (error + 'a) \<times> world) \<Rightarrow> world \<Rightarrow> (error + 'a) \<times> world" where
  "retry 0 body w = (Inl RetryError, w)"
| "retry (Suc n) body w =
     (case body w of
        (Inr v, w') \<Rightarrow> (Inr v, w')
      | (Inl e, w') \<Rightarrow> retry n body w')"

definition send_image :: "endpoint \<Rightarrow> path \<Rightarrow> world \<Rightarrow> (error + json) \<times> world" where
  "send_image api image_path w = retry 3 (send_once api image_path) w"

section \<open>The per-image pipeline\<close>

definition result_record :: "path \<Rightarrow> json \<Rightarrow> json" where
  "result_record image_path resp = JDict [(''image'', JStr (str image_path)), (''response'', resp)]"

definition review_record :: "path \<Rightarrow> json \<Rightarrow> real \<Rightarrow> json" where
  "review_record image_path resp max_conf =
     JDict [(''image'', JStr (str image_path)), (''response'', resp),
            (''max_confidence'', JFloat max_conf)]"

text \<open>
  \<^verbatim>\<open>dir.mkdir(parents=True, exist_ok=True)\<close>, then the document written to
  \<^verbatim>\<open>dir / (image_path.stem + ".json")\<close>. An error of either step is raised.
\<close>

definition save :: "path \<Rightarrow> path \<Rightarrow> json \<Rightarrow> world \<Rightarrow> (error + path) \<times> world" where
  "save dir image_path doc w =
     (case mkdir_parents (fs w) dir of
        Inl e \<Rightarrow> (Inl e, w)
      | Inr f1 \<Rightarrow>
          (let w1 = w\<lparr>fs := f1\<rparr>; out_path = dir @ [stem image_path @ ''.json''] in
           case write_json (fs w1) out_path doc of
             Inl e \<Rightarrow> (Inl e, w1)
           | Inr f2 \<Rightarrow> (Inr out_path, emit (Wrote out_path doc) (w1\<lparr>fs := f2\<rparr>))))"

definition handle_image ::
  "endpoint \<Rightarrow> path \<Rightarrow> real \<Rightarrow> path \<Rightarrow> path \<Rightarrow> world \<Rightarrow> (error + unit) \<times> world" where
  "handle_image api image_path threshold review_dir results_dir w =
     (case send_image api image_path (emit (Processing image_path) w) of
        (Inl e, w1) \<Rightarrow> (Inr (), emit (Failed_to_send image_path e) w1)
      | (Inr resp, w1) \<Rightarrow>
          (case save results_dir image_path (result_record image_path resp) w1 of
             (Inl e, w2) \<Rightarrow> (Inl e, w2)
           | (Inr out_path, w2) \<Rightarrow>
               (case extract_max_confidence resp of
                  Inl e \<Rightarrow> (Inl e, w2)
                | Inr max_conf \<Rightarrow>
                    (let w3 = emit (Max_confidence (name image_path) max_conf) w2 in
                     if max_conf < threshold then
                       (case save review_dir image_path
                               (review_record image_path resp max_conf) w3 of
                          (Inl e, w4) \<Rightarrow> (Inl e, w4)
                        | (Inr review_path, w4) \<Rightarrow>
                            (Inr (), emit (Saved_low_confidence review_path) w4))
                     else (Inr (), w3)))))"

section \<open>The startup scan\<close>

text \<open>
  The loop \<^verbatim>\<open>for p in sorted(...): if p.is_file() and is_image_file(p): handle_image(...)\<close>.
  \<^verbatim>\<open>is_file\<close> is asked when the loop reaches the entry; an exception of
  \<^verbatim>\<open>handle_image\<close> leaves the loop.
\<close>

fun scan_loop ::
  "endpoint \<Rightarrow> real \<Rightarrow> path \<Rightarrow> path \<Rightarrow> path list \<Rightarrow> world \<Rightarrow> (error + unit) \<times> world" where
  "scan_loop api threshold review_dir results_dir [] w = (Inr (), w)"
| "scan_loop api threshold review_dir results_dir (p # ps) w =
     (if is_file (fs w) p \<and> is_image_file p then
        (case handle_image api p threshold review_dir results_dir w of
           (Inl e, w') \<Rightarrow> (Inl e, w')
         | (Inr u, w') \<Rightarrow> scan_loop api threshold review_dir results_dir ps w')
      else scan_loop api threshold review_dir results_dir ps w)"

definition scan_existing_and_process ::
  "path \<Rightarrow> endpoint \<Rightarrow> real \<Rightarrow> path \<Rightarrow> path \<Rightarrow> world \<Rightarrow> (error + unit) \<times> world" where
  "scan_existing_and_process watch_dir api threshold review_dir results_dir w =
     (case (if exists (fs w) watch_dir then iterdir (fs w) watch_dir else Inr []) of
        Inl e \<Rightarrow> (Inl e, w)
      | Inr entries \<Rightarrow> scan_loop api threshold review_dir results_dir (sort entries) w)"

section \<open>The specification's notions\<close>

text \<open>
  The number a JSON value stands for, a boolean counting as 1 or 0; \<open>None\<close> for a value
  that is not a number.
\<close>

fun exact_value :: "json \<Rightarrow> real option" where
  "exact_value (JBool b) = Some (if b then 1 else 0)"
| "exact_value (JInt i) = Some (of_int i)"
| "exact_value (JFloat x) = Some x"
| "exact_value _ = None"

definition value_at :: "(string \<times> json) list \<Rightarrow> string \<Rightarrow> real option" where
  "value_at d key = (case map_of d key of None \<Rightarrow> None | Some v \<Rightarrow> exact_value v)"

text \<open>
  The numeric fields the specification speaks of: the numbers under the keys
  \<^verbatim>\<open>confidence\<close>, \<^verbatim>\<open>score\<close>, \<^verbatim>\<open>probability\<close> of the elements of a sequence that
  are mappings; and the integers among them.
\<close>

definition field_values :: "json list \<Rightarrow> real set" where
  "field_values ds =
     {x. \<exists>d key. JDict d \<in> set ds \<and> key \<in> {''confidence'', ''score'', ''probability''}
          \<and> value_at d key = Some x}"

definition integer_fields :: "json list \<Rightarrow> int set" where
  "integer_fields ds =
     {i. \<exists>d key. JDict d \<in> set ds \<and> key \<in> {''confidence'', ''score'', ''probability''}
          \<and> map_of d key = Some (JInt i)}"

text \<open>The same numbers as a list, in the order of the elements and of the three keys.\<close>

definition values_of :: "(string \<times> json) list \<Rightarrow> real list" where
  "values_of d = List.map_filter (value_at d) [''confidence'', ''score'', ''probability'']"

fun element_values :: "json \<Rightarrow> real list" where
  "element_values (JDict d) = values_of d"
| "element_values _ = []"

definition all_values :: "json list \<Rightarrow> real list" where
  "all_values ds = concat (map element_values ds)"

text \<open>
  The extension of a path: what follows the last dot of its final component, when
  something stands before that dot and after it.
\<close>

definition has_extension :: "path \<Rightarrow> string \<Rightarrow> bool" where
  "has_extension p e \<longleftrightarrow>
     (\<exists>a. name p = a @ ''.'' @ e \<and> a \<noteq> [] \<and> e \<noteq> [] \<and> CHR ''.'' \<notin> set e)"

definition extensions :: "string set" where
  "extensions = {''jpg'', ''jpeg'', ''png'', ''bmp'', ''gif''}"

text \<open>The documents written, in order, and the images taken up, in order.\<close>

fun writes :: "event list \<Rightarrow> (path \<times> json) list" where
  "writes [] = []"
| "writes (Wrote p doc # es) = (p, doc) # writes es"
| "writes (e # es) = writes es"

fun processed :: "event list \<Rightarrow> path list" where
  "processed [] = []"
| "processed (Processing p # es) = p # processed es"
| "processed (e # es) = processed es"

fun attempts :: "event list \<Rightarrow> path list" where
  "attempts [] = []"
| "attempts (Attempt p # es) = p # attempts es"
| "attempts (e # es) = attempts es"

text \<open>
  One file system extends another when every path that exists keeps its node; every path
  that exists then keeps its kind.
\<close>

definition extends :: "filesystem \<Rightarrow> filesystem \<Rightarrow> bool" where
  "extends f f' \<longleftrightarrow> (\<forall>q. exists f q \<longrightarrow> lookup f' q = lookup f q)"

definition keeps_kinds :: "filesystem \<Rightarrow> filesystem \<Rightarrow> bool" where
  "keeps_kinds f f' \<longleftrightarrow> (\<forall>q. exists f q \<longrightarrow> (is_file f' q \<longleftrightarrow> is_file f q) \<and> exists f' q)"

text \<open>Endpoints for the examples: one that answers every request alike, one that always fails.\<close>

definition answering :: "json \<Rightarrow> endpoint" where
  "answering resp n file_name bytes = Inr resp"

definition failing :: endpoint where
  "failing n file_name bytes = Inl RequestError"

text \<open>
  The startup scan as the specification describes it: the entries sorted, those kept that
  are files and pass the classifier, and the pipeline run on each in turn.
\<close>

fun run_pipeline ::
  "endpoint \<Rightarrow> real \<Rightarrow> path \<Rightarrow> path \<Rightarrow> path list \<Rightarrow> world \<Rightarrow> (error + unit) \<times> world" where
  "run_pipeline api threshold review_dir results_dir [] w = (Inr (), w)"
| "run_pipeline api threshold review_dir results_dir (p # ps) w =
     (case handle_image api p threshold review_dir results_dir w of
        (Inl e, w') \<Rightarrow> (Inl e, w')
      | (Inr u, w') \<Rightarrow> run_pipeline api threshold review_dir results_dir ps w')"

definition kept_entries :: "filesystem \<Rightarrow> path \<Rightarrow> path list" where
  "kept_entries f watch_dir =
     filter (\<lambda>p. is_file f p \<and> is_image_file p)
       (sort (remdups (filter (\<lambda>p. p \<noteq> [] \<and> butlast p = watch_dir) (map fst f))))"

section \<open>Properties of the conversion to float\<close>


lemma bit_length_le: "n < 2 ^ k \<Longrightarrow> bit_length n \<le> k"
proof (induction n arbitrary: k rule: bit_length.induct)
  case (1 n)
  show ?case
  proof (cases "n = 0")
    case True
    then show ?thesis by (simp add: bit_length.simps [of 0])
  next
    case False
    with "1.prems" obtain j where k: "k = Suc j" by (cases k) auto
    with "1.prems" have "n div 2 < 2 ^ j" by simp
    with "1.IH" False have "bit_length (n div 2) \<le> j" by blast
    with False k show ?thesis by (simp add: bit_length.simps [of n])
  qed
qed



lemma round_to_double_small: "n < 2 ^ 53 \<Longrightarrow> round_to_double n = n"
  using bit_length_le [of n 53] by (simp add: round_to_double_def Let_def)


lemma float_of_int_exact:
  assumes "\<bar>i\<bar> < 2 ^ 53"
  shows "float_of_int i = Inr (of_int i)"
proof -
  from assms have n: "nat \<bar>i\<bar> < 2 ^ 53" by (simp add: nat_less_iff)
  then have r: "round_to_double (nat \<bar>i\<bar>) = nat \<bar>i\<bar>" by (rule round_to_double_small)
  have "(2::nat) ^ 53 < 2 ^ 1024" by (rule power_strict_increasing) simp_all
  with n have "\<not> (2::nat) ^ 1024 \<le> nat \<bar>i\<bar>" by linarith
  with r show ?thesis by (auto simp: float_of_int_def Let_def)
qed






section \<open>Properties of the confidence extractor\<close>

lemma py_max_max: "py_max a b = max b a"
  by (simp add: py_max_def max_def)

lemma list_at_eq: "list_at r key = Some xs \<longleftrightarrow> map_of r key = Some (JList xs)"
  by (auto simp: list_at_def split: option.splits json.splits)

lemma list_at_None: "list_at r key = None \<longleftrightarrow> (\<forall>xs. map_of r key \<noteq> Some (JList xs))"
  by (auto simp: list_at_def split: option.splits json.splits)

lemma float_at_None: "float_at r key = None \<longleftrightarrow> (\<forall>v. map_of r key = Some v \<longrightarrow> as_float v = None)"
  by (auto simp: float_at_def split: option.splits)

lemma as_float_None: "as_float v = None \<longleftrightarrow> exact_value v = None"
  by (cases v) simp_all

lemma as_float_exact:
  assumes "\<forall>i. v = JInt i \<longrightarrow> \<bar>i\<bar> < 2 ^ 53"
  shows "as_float v = map_option Inr (exact_value v)"
  using assms by (cases v) (simp_all add: float_of_int_exact)

lemma float_at_exact:
  assumes "\<forall>i. map_of d key = Some (JInt i) \<longrightarrow> \<bar>i\<bar> < 2 ^ 53"
  shows "float_at d key = map_option Inr (value_at d key)"
  using assms by (auto simp: float_at_def value_at_def as_float_exact split: option.splits)

subsection \<open>Every field in the exact range\<close>

lemma scan_key_exact:
  assumes "\<forall>i. map_of d key = Some (JInt i) \<longrightarrow> \<bar>i\<bar> < 2 ^ 53"
  shows "scan_key d key m = Inr (case value_at d key of None \<Rightarrow> m | Some x \<Rightarrow> max x m)"
  using float_at_exact [OF assms]
  by (simp add: scan_key_def py_max_max split: option.splits)

lemma scan_keys_exact:
  assumes "\<forall>key \<in> set ks. \<forall>i. map_of d key = Some (JInt i) \<longrightarrow> \<bar>i\<bar> < 2 ^ 53"
  shows "scan_keys d ks m = Inr (fold max (List.map_filter (value_at d) ks) m)"
  using assms
proof (induction ks arbitrary: m)
  case Nil
  then show ?case by simp
next
  case (Cons k ks)
  then have "\<forall>i. map_of d k = Some (JInt i) \<longrightarrow> \<bar>i\<bar> < 2 ^ 53" by simp
  then have "scan_key d k m = Inr (case value_at d k of None \<Rightarrow> m | Some x \<Rightarrow> max x m)"
    by (rule scan_key_exact)
  with Cons show ?case by (simp split: option.splits)
qed

lemma scan_element_exact:
  assumes "\<forall>i \<in> integer_fields [e]. \<bar>i\<bar> < 2 ^ 53"
  shows "scan_element e m = Inr (fold max (element_values e) m)"
proof (cases e)
  case (JDict d)
  with assms have
    "\<forall>key \<in> set conf_keys. \<forall>i. map_of d key = Some (JInt i) \<longrightarrow> \<bar>i\<bar> < 2 ^ 53"
    by (auto simp: integer_fields_def conf_keys_def)
  then have "scan_keys d conf_keys m = Inr (fold max (List.map_filter (value_at d) conf_keys) m)"
    by (rule scan_keys_exact)
  with JDict show ?thesis by (simp add: values_of_def conf_keys_def)
qed simp_all

lemma integer_fields_Cons: "integer_fields (e # es) = integer_fields [e] \<union> integer_fields es"
  by (auto simp: integer_fields_def)

lemma field_values_Cons: "field_values (e # es) = field_values [e] \<union> field_values es"
  by (auto simp: field_values_def)

lemma scan_elements_exact:
  assumes "\<forall>i \<in> integer_fields ds. \<bar>i\<bar> < 2 ^ 53"
  shows "scan_elements ds m = Inr (fold max (all_values ds) m)"
  using assms
proof (induction ds arbitrary: m)
  case Nil
  then show ?case by (simp add: all_values_def)
next
  case (Cons e es)
  then have "\<forall>i \<in> integer_fields [e]. \<bar>i\<bar> < 2 ^ 53" and rest: "\<forall>i \<in> integer_fields es. \<bar>i\<bar> < 2 ^ 53"
    by (simp_all add: integer_fields_Cons [of e es])
  then have "scan_element e m = Inr (fold max (element_values e) m)"
    by (intro scan_element_exact)
  with Cons.IH [OF rest] show ?case by (simp add: all_values_def)
qed

lemma set_values_of:
  "set (values_of d) =
     {x. \<exists>key. key \<in> {''confidence'', ''score'', ''probability''} \<and> value_at d key = Some x}"
  by (auto simp: values_of_def split: option.splits)

lemma set_element_values: "set (element_values e) = field_values [e]"
  by (cases e) (auto simp: field_values_def set_values_of)

lemma set_all_values: "set (all_values ds) = field_values ds"
proof (induction ds)
  case Nil
  then show ?case by (simp add: all_values_def field_values_def)
next
  case (Cons e es)
  then show ?case
    using field_values_Cons [of e es] by (simp add: all_values_def set_element_values)
qed

lemma scan_elements_Max:
  assumes "\<forall>i \<in> integer_fields ds. \<bar>i\<bar> < 2 ^ 53"
  shows "scan_elements ds m = Inr (Max (insert m (field_values ds)))"
  using scan_elements_exact [OF assms, of m] Max.set_eq_fold [of m "all_values ds"]
  by (simp add: set_all_values)

subsection \<open>What every run returns or raises\<close>













subsection \<open>The claims about the extractor\<close>







text \<open>
  C6. The extractor returns 0.0 for every input that is not a mapping, and for every
  mapping with no \<^verbatim>\<open>detections\<close> sequence, no numeric \<^verbatim>\<open>confidence\<close> and no
  \<^verbatim>\<open>predictions\<close> sequence that has a numeric field.
\<close>

theorem unrecognized_shape_zero:
  "((\<forall>r. j \<noteq> JDict r) \<longrightarrow> extract_max_confidence j = Inr 0)
   \<and> ((\<forall>ds. map_of r ''detections'' \<noteq> Some (JList ds))
      \<and> (\<forall>v. map_of r ''confidence'' = Some v \<longrightarrow> as_float v = None)
      \<and> (\<forall>ps. map_of r ''predictions'' = Some (JList ps)
            \<longrightarrow> (\<forall>d key v. JDict d \<in> set ps
                   \<and> key \<in> {''confidence'', ''score'', ''probability''}
                   \<and> map_of d key = Some v \<longrightarrow> as_float v = None))
      \<longrightarrow> extract_max_confidence (JDict r) = Inr 0)"
proof (intro conjI impI)
  assume "\<forall>r. j \<noteq> JDict r"
  then show "extract_max_confidence j = Inr 0" by (cases j) simp_all
next
  assume h: "(\<forall>ds. map_of r ''detections'' \<noteq> Some (JList ds))
      \<and> (\<forall>v. map_of r ''confidence'' = Some v \<longrightarrow> as_float v = None)
      \<and> (\<forall>ps. map_of r ''predictions'' = Some (JList ps)
            \<longrightarrow> (\<forall>d key v. JDict d \<in> set ps
                   \<and> key \<in> {''confidence'', ''score'', ''probability''}
                   \<and> map_of d key = Some v \<longrightarrow> as_float v = None))"
  then have d: "list_at r ''detections'' = None" and c: "float_at r ''confidence'' = None"
    by (simp_all add: list_at_None float_at_None)
  show "extract_max_confidence (JDict r) = Inr 0"
  proof (cases "list_at r ''predictions''")
    case None
    with d c show ?thesis by simp
  next
    case (Some ps)
    with h have none: "\<forall>d key v. JDict d \<in> set ps
        \<and> key \<in> {''confidence'', ''score'', ''probability''}
        \<and> map_of d key = Some v \<longrightarrow> as_float v = None"
      by (simp add: list_at_eq)
    then have "integer_fields ps = {}"
      by (fastforce simp: integer_fields_def)
    moreover have "field_values ps = {}"
    proof (rule ccontr)
      assume "field_values ps \<noteq> {}"
      then obtain x d key where "JDict d \<in> set ps"
        "key \<in> {''confidence'', ''score'', ''probability''}" "value_at d key = Some x"
        unfolding field_values_def by blast
      moreover then obtain v where "map_of d key = Some v" "exact_value v = Some x"
        by (auto simp: value_at_def split: option.splits)
      ultimately show False using none by (auto simp: as_float_None)
    qed
    ultimately have "scan_elements ps 0 = Inr 0"
      using scan_elements_Max [of ps 0] by simp
    with d c Some show ?thesis by simp
  qed
qed

theorem unrecognized_shape_zero_witness:
  "extract_max_confidence (JList [JDict [(''confidence'', JFloat 0.9)]]) = Inr 0
   \<and> extract_max_confidence
       (JDict [(''label'', JStr ''cat''), (''confidence'', JStr ''high''),
               (''predictions'', JList [JDict [(''label'', JStr ''cat'')], JFloat 0.9])]) = Inr 0"
  using unrecognized_shape_zero
    [of "JList [JDict [(''confidence'', JFloat 0.9)]]"
        "[(''label'', JStr ''cat''), (''confidence'', JStr ''high''),
          (''predictions'', JList [JDict [(''label'', JStr ''cat'')], JFloat 0.9])]"]
  by auto



section \<open>Properties of the file classifier\<close>

lemma rfind_None: "rfind c s = None \<longleftrightarrow> c \<notin> set s"
  by (induction s) (auto split: option.splits)

lemma rfind_Some:
  "rfind c s = Some i \<longleftrightarrow> (\<exists>a b. s = a @ c # b \<and> length a = i \<and> c \<notin> set b)"
proof (induction s arbitrary: i)
  case Nil
  then show ?case by simp
next
  case (Cons x xs)
  show ?case
  proof (cases "rfind c xs")
    case None
    then have nin: "c \<notin> set xs" by (simp add: rfind_None)
    show ?thesis
    proof
      assume "rfind c (x # xs) = Some i"
      with None have "x = c" "i = 0" by (auto split: if_splits)
      with nin show "\<exists>a b. x # xs = a @ c # b \<and> length a = i \<and> c \<notin> set b"
        by (intro exI [of _ "[]"] exI [of _ xs]) simp
    next
      assume "\<exists>a b. x # xs = a @ c # b \<and> length a = i \<and> c \<notin> set b"
      then obtain a b where ab: "x # xs = a @ c # b" "length a = i" "c \<notin> set b" by blast
      show "rfind c (x # xs) = Some i"
      proof (cases a)
        case Nil
        with ab None show ?thesis by simp
      next
        case (Cons y ys)
        with ab have "xs = ys @ c # b" by simp
        with nin show ?thesis by simp
      qed
    qed
  next
    case (Some j)
    then obtain a b where ab: "xs = a @ c # b" "length a = j" "c \<notin> set b"
      using Cons.IH by blast
    show ?thesis
    proof
      assume "rfind c (x # xs) = Some i"
      with Some have "i = Suc j" by simp
      with ab show "\<exists>a b. x # xs = a @ c # b \<and> length a = i \<and> c \<notin> set b"
        by (intro exI [of _ "x # a"] exI [of _ b]) simp
    next
      assume "\<exists>a b. x # xs = a @ c # b \<and> length a = i \<and> c \<notin> set b"
      then obtain a' b' where ab': "x # xs = a' @ c # b'" "length a' = i" "c \<notin> set b'" by blast
      show "rfind c (x # xs) = Some i"
      proof (cases a')
        case Nil
        with ab' have "xs = b'" by simp
        with ab ab' show ?thesis by simp
      next
        case (Cons y ys)
        with ab' have "xs = ys @ c # b'" "i = Suc (length ys)" by auto
        with ab'(3) have "rfind c xs = Some (length ys)" using Cons.IH by blast
        with \<open>i = Suc (length ys)\<close> show ?thesis by simp
      qed
    qed
  qed
qed

lemma suffix_eq_dot:
  "suffix p = CHR ''.'' # e \<longleftrightarrow>
     (\<exists>a. name p = a @ CHR ''.'' # e \<and> a \<noteq> [] \<and> e \<noteq> [] \<and> CHR ''.'' \<notin> set e)"
proof
  assume s: "suffix p = CHR ''.'' # e"
  then obtain i where i: "rfind (CHR ''.'') (name p) = Some i" "0 < i" "Suc i < length (name p)"
    "drop i (name p) = CHR ''.'' # e"
    by (auto simp: suffix_def Let_def split: option.splits if_splits)
  then obtain a b where ab: "name p = a @ CHR ''.'' # b" "length a = i" "CHR ''.'' \<notin> set b"
    by (auto simp: rfind_Some)
  with i have "b = e" "a \<noteq> []" "e \<noteq> []" by auto
  with ab show "\<exists>a. name p = a @ CHR ''.'' # e \<and> a \<noteq> [] \<and> e \<noteq> [] \<and> CHR ''.'' \<notin> set e"
    by blast
next
  assume "\<exists>a. name p = a @ CHR ''.'' # e \<and> a \<noteq> [] \<and> e \<noteq> [] \<and> CHR ''.'' \<notin> set e"
  then obtain a where a: "name p = a @ CHR ''.'' # e" "a \<noteq> []" "e \<noteq> []" "CHR ''.'' \<notin> set e"
    by blast
  then have "rfind (CHR ''.'') (name p) = Some (length a)"
    by (auto simp: rfind_Some)
  with a show "suffix p = CHR ''.'' # e"
    by (simp add: suffix_def Let_def)
qed

lemma suffix_cases: "suffix p = [] \<or> (\<exists>e. suffix p = CHR ''.'' # e)"
proof (cases "rfind (CHR ''.'') (name p)")
  case None
  then show ?thesis by (simp add: suffix_def)
next
  case (Some i)
  then obtain a b where "name p = a @ CHR ''.'' # b" "length a = i"
    by (auto simp: rfind_Some)
  with Some show ?thesis by (simp add: suffix_def Let_def)
qed

lemma lower_Cons: "lower (c # s) = lower_char c # lower s"
  by (simp add: lower_def)

lemma lower_Nil: "lower [] = []"
  by (simp add: lower_def)

lemma lower_char_dot: "lower_char (CHR ''.'') = CHR ''.''"
  by (simp add: lower_char_def)

lemma is_image_file_suffix:
  "is_image_file p \<longleftrightarrow> (\<exists>e. suffix p = CHR ''.'' # e \<and> lower e \<in> extensions)"
proof (cases "suffix p")
  case Nil
  then show ?thesis by (simp add: is_image_file_def lower_Nil)
next
  case (Cons c e)
  with suffix_cases [of p] have c: "c = CHR ''.''" by auto
  with Cons show ?thesis
    by (simp add: is_image_file_def lower_Cons lower_char_dot extensions_def)
qed

text \<open>
  C8. \<^verbatim>\<open>is_image_file\<close> holds exactly of the paths whose extension, lowered, is one of
  jpg, jpeg, png, bmp, gif. It is a function of the path alone, defined on every path,
  with no state and no error value.
\<close>

theorem is_image_file_iff:
  "is_image_file p \<longleftrightarrow> (\<exists>e. has_extension p e \<and> lower e \<in> extensions)"
  unfolding is_image_file_suffix has_extension_def suffix_eq_dot
  by (auto simp: extensions_def lower_def)

theorem is_image_file_iff_witness:
  "is_image_file [''images'', ''Cat.v2.JpEg''] \<and> \<not> is_image_file [''images'', ''.png'']
   \<and> \<not> is_image_file [''images'', ''notes.txt'']"
proof -
  have "has_extension [''images'', ''Cat.v2.JpEg''] ''JpEg''"
    unfolding has_extension_def by (intro exI [of _ "''Cat.v2''"]) (simp add: name_def)
  moreover have "lower ''JpEg'' \<in> extensions"
    by (simp add: lower_def lower_char_def extensions_def)
  ultimately have a: "is_image_file [''images'', ''Cat.v2.JpEg'']"
    using is_image_file_iff [of "[''images'', ''Cat.v2.JpEg'']"] by blast
  have b: "\<not> is_image_file [''images'', ''.png'']"
    using is_image_file_iff [of "[''images'', ''.png'']"]
    by (auto simp: has_extension_def name_def Cons_eq_append_conv)
  have c: "\<not> is_image_file [''images'', ''notes.txt'']"
    using is_image_file_iff [of "[''images'', ''notes.txt'']"]
    by (auto simp: has_extension_def name_def Cons_eq_append_conv append_eq_Cons_conv
        extensions_def lower_def lower_char_def)
  from a b c show ?thesis by blast
qed

section \<open>Properties of the file system operations\<close>

lemma lookup_update:
  "p \<noteq> [] \<Longrightarrow> lookup (AList.update p n f) q = (if q = p then Some n else lookup f q)"
  by (simp add: lookup_def update_conv')

lemma keeps_kinds_refl: "keeps_kinds f f"
  by (simp add: keeps_kinds_def)

lemma keeps_kinds_trans: "keeps_kinds f f' \<Longrightarrow> keeps_kinds f' f'' \<Longrightarrow> keeps_kinds f f''"
  by (simp add: keeps_kinds_def)

lemma extends_refl: "extends f f"
  by (simp add: extends_def)

lemma extends_exists: "extends f f' \<Longrightarrow> exists f q \<Longrightarrow> exists f' q"
  by (simp add: extends_def exists_def)

lemma extends_trans: "extends f f' \<Longrightarrow> extends f' f'' \<Longrightarrow> extends f f''"
  unfolding extends_def by (metis exists_def)

lemma extends_keeps_kinds: "extends f f' \<Longrightarrow> keeps_kinds f f'"
  by (simp add: extends_def keeps_kinds_def is_file_def exists_def)

lemma os_mkdir_extends: "os_mkdir f p = Inr f' \<Longrightarrow> extends f f'"
  by (auto simp: os_mkdir_def extends_def exists_def lookup_update
      split: if_splits option.splits node.splits)

lemma os_mkdir_is_dir: "os_mkdir f p = Inr f' \<Longrightarrow> is_dir f' p"
  by (auto simp: os_mkdir_def is_dir_def lookup_update
      split: if_splits option.splits node.splits)

lemma mkdir_parents_extends: "mkdir_parents f p = Inr f' \<Longrightarrow> extends f f'"
proof (induction f p arbitrary: f' rule: mkdir_parents.induct)
  case (1 f p)
  show ?case
  proof (cases "os_mkdir f p")
    case (Inr g)
    with "1.prems" show ?thesis
      by (simp add: mkdir_parents.simps [of f p] os_mkdir_extends)
  next
    case (Inl e)
    show ?thesis
    proof (cases "e = FileNotFoundError")
      case False
      with Inl "1.prems" show ?thesis
        by (simp add: mkdir_parents.simps [of f p] extends_refl split: if_splits)
    next
      case True
      with Inl "1.prems" have ne: "p \<noteq> []"
        by (auto simp: mkdir_parents.simps [of f p])
      with Inl True "1.prems" obtain g where g: "mkdir_parents f (butlast p) = Inr g"
        by (auto simp: mkdir_parents.simps [of f p] split: sum.splits)
      with "1.IH" Inl True ne have fg: "extends f g" by blast
      from Inl True ne g "1.prems" have "f' = g \<or> os_mkdir g p = Inr f'"
        by (auto simp: mkdir_parents.simps [of f p] split: sum.splits if_splits)
      then show ?thesis
        using fg os_mkdir_extends extends_trans by blast
    qed
  qed
qed

lemma mkdir_parents_is_dir: "mkdir_parents f p = Inr f' \<Longrightarrow> is_dir f' p"
proof (cases "os_mkdir f p")
  case (Inr g)
  assume "mkdir_parents f p = Inr f'"
  with Inr show ?thesis by (simp add: mkdir_parents.simps [of f p] os_mkdir_is_dir)
next
  case (Inl e)
  assume "mkdir_parents f p = Inr f'"
  with Inl show ?thesis
    by (auto simp: mkdir_parents.simps [of f p] os_mkdir_is_dir split: sum.splits if_splits)
qed

lemma write_json_lookup:
  "write_json f p doc = Inr f' \<Longrightarrow> p \<noteq> [] \<Longrightarrow>
     lookup f' q = (if q = p then Some (File (Json doc)) else lookup f q)"
  by (auto simp: write_json_def lookup_update split: option.splits node.splits)

lemma write_json_keeps_kinds:
  assumes "write_json f p doc = Inr f'" and "p \<noteq> []"
  shows "keeps_kinds f f'"
proof -
  from assms(1) have notdir: "lookup f p \<noteq> Some Dir"
    by (auto simp: write_json_def split: option.splits node.splits)
  have "(is_file f' q \<longleftrightarrow> is_file f q) \<and> exists f' q" if "exists f q" for q
  proof (cases "q = p")
    case True
    with that notdir have "is_file f q"
      by (cases "lookup f p") (auto simp: exists_def is_file_def split: node.splits)
    with True show ?thesis
      by (simp add: is_file_def exists_def write_json_lookup [OF assms])
  next
    case False
    with that show ?thesis
      by (simp add: is_file_def exists_def write_json_lookup [OF assms])
  qed
  then show ?thesis by (simp add: keeps_kinds_def)
qed

end
